theory Spec2Isabelle
  imports Main "HOL-Library.Sublist" "HOL-Library.AList"
begin

section \<open>Strings and the regular expressions of the chat view provider\<close>

text \<open>
  JavaScript strings are modelled as \<^typ>\<open>string\<close>; one \<^typ>\<open>char\<close> stands for one code
  unit. \<open>s.startsWith(p)\<close> is \<^term>\<open>prefix p s\<close> and \<open>s.includes(x)\<close> is
  \<^term>\<open>sublist x s\<close>.
\<close>

definition dquote :: char where
  "dquote = CHR 0x22"

text \<open>\<open>String.prototype.trim\<close>: white space and line terminators among the code units
  below 256 (TAB, LF, VT, FF, CR, SP, NBSP).\<close>

definition is_space :: "char \<Rightarrow> bool" where
  "is_space c = (c \<in> set [CHR 0x09, CHR 0x0A, CHR 0x0B, CHR 0x0C, CHR 0x0D, CHR 0x20, CHR 0xA0])"

definition trim :: "string \<Rightarrow> string" where
  "trim s = rev (dropWhile is_space (rev (dropWhile is_space s)))"

text \<open>Consuming a literal at the current position.\<close>

fun stripPrefix :: "string \<Rightarrow> string \<Rightarrow> string option" where
  "stripPrefix [] s = Some s"
| "stripPrefix (p # ps) [] = None"
| "stripPrefix (p # ps) (c # cs) = (if p = c then stripPrefix ps cs else None)"

text \<open>The lazy \<open>[\s\S]*?\<close> followed by a literal: the shortest text before the first
  place where the literal can be consumed; \<open>(before, after)\<close>.\<close>

fun lazyUntil :: "string \<Rightarrow> string \<Rightarrow> (string \<times> string) option" where
  "lazyUntil lit [] = (case stripPrefix lit [] of Some r \<Rightarrow> Some ([], r) | None \<Rightarrow> None)"
| "lazyUntil lit (c # cs) =
     (case stripPrefix lit (c # cs) of
        Some r \<Rightarrow> Some ([], r)
      | None \<Rightarrow> (case lazyUntil lit cs of
                   Some (b, r) \<Rightarrow> Some (c # b, r)
                 | None \<Rightarrow> None))"

text \<open>The greedy \<open>([^"]+)"\<close>: a non-empty run of characters other than the double quote,
  then the double quote.\<close>

definition quoted :: "string \<Rightarrow> (string \<times> string) option" where
  "quoted s =
     (let v = takeWhile (\<lambda>c. c \<noteq> dquote) s; r = dropWhile (\<lambda>c. c \<noteq> dquote) s
      in if v = [] \<or> r = [] then None else Some (v, tl r))"

subsection \<open>The tool directive expression\<close>

text \<open>
  \<^verbatim>\<open>/<tool code="([^"]+)"(?: path="([^"]+)")?>([\s\S]*?)<\/tool>/g\<close>

  A match is the array \<open>[fullTool, code, path, content]\<close>; \<open>path\<close> is \<open>undefined\<close>
  (here \<^term>\<open>None\<close>) when the optional group did not take part.
\<close>

record tmatch =
  fullTool :: string
  code :: string
  path :: "string option"
  content :: string

definition toolOpen :: string where
  \<open>toolOpen = ''<tool code="''\<close>

definition pathOpen :: string where
  \<open>pathOpen = '' path="''\<close>

definition toolClose :: string where
  "toolClose = ''</tool>''"

text \<open>The optional group \<open>(?: path="([^"]+)")?\<close> is greedy: it is taken when it can be
  consumed and the remainder of the expression still matches, skipped otherwise.\<close>

definition tailAt :: "string \<Rightarrow> (string \<times> string) option" where
  "tailAt s =
     (case stripPrefix ''>'' s of
        None \<Rightarrow> None
      | Some r \<Rightarrow> lazyUntil toolClose r)"

definition matchAt :: "string \<Rightarrow> (tmatch \<times> string) option" where
  "matchAt s =
     (case stripPrefix toolOpen s of
        None \<Rightarrow> None
      | Some r0 \<Rightarrow>
         (case quoted r0 of
            None \<Rightarrow> None
          | Some (c, r1) \<Rightarrow>
             (let skipped =
                    (case tailAt r1 of
                       None \<Rightarrow> None
                     | Some (b, rest) \<Rightarrow>
                         Some (\<lparr>fullTool = take (length s - length rest) s, code = c,
                                 path = None, content = b\<rparr>, rest))
              in case stripPrefix pathOpen r1 of
                   None \<Rightarrow> skipped
                 | Some r2 \<Rightarrow>
                    (case quoted r2 of
                       None \<Rightarrow> skipped
                     | Some (p, r3) \<Rightarrow>
                        (case tailAt r3 of
                           None \<Rightarrow> skipped
                         | Some (b, rest) \<Rightarrow>
                             Some (\<lparr>fullTool = take (length s - length rest) s, code = c,
                                     path = Some p, content = b\<rparr>, rest))))))"

text \<open>One \<open>toolRegex.exec(answer)\<close> from \<open>lastIndex\<close>: the argument is the text from
  \<open>lastIndex\<close> on, the result the text skipped, the match, and the text after it.\<close>

fun regexExec :: "string \<Rightarrow> (string \<times> tmatch \<times> string) option" where
  "regexExec [] = None"
| "regexExec (c # cs) =
     (case matchAt (c # cs) of
        Some (m, rest) \<Rightarrow> Some ([], m, rest)
      | None \<Rightarrow> (case regexExec cs of
                   Some (pre, m, rest) \<Rightarrow> Some (c # pre, m, rest)
                 | None \<Rightarrow> None))"


subsection \<open>Basic facts about the matchers\<close>

lemma stripPrefix_Some_iff: "stripPrefix p s = Some r \<longleftrightarrow> s = p @ r"
  by (induction p s rule: stripPrefix.induct) auto

lemma stripPrefix_None_iff: "stripPrefix p s = None \<longleftrightarrow> \<not> prefix p s"
  by (induction p s rule: stripPrefix.induct) auto

lemma stripPrefix_append [simp]: "stripPrefix p (p @ r) = Some r"
  by (simp add: stripPrefix_Some_iff)

lemma lazyUntil_Some: "lazyUntil lit s = Some (b, r) \<Longrightarrow> s = b @ lit @ r"
  by (induction s arbitrary: b) (auto simp: stripPrefix_Some_iff split: option.splits)

lemma lazyUntil_None_iff: "lazyUntil lit s = None \<longleftrightarrow> \<not> sublist lit s"
  by (induction s) (auto simp: stripPrefix_None_iff stripPrefix_Some_iff sublist_Cons_right split: option.splits)

lemma quoted_Some_iff:
  "quoted s = Some (v, r) \<longleftrightarrow> v \<noteq> [] \<and> dquote \<notin> set v \<and> s = v @ dquote # r"
proof
  assume "quoted s = Some (v, r)"
  then have v: "v = takeWhile (\<lambda>c. c \<noteq> dquote) s" and "v \<noteq> []"
    and d: "dropWhile (\<lambda>c. c \<noteq> dquote) s \<noteq> []" and r: "r = tl (dropWhile (\<lambda>c. c \<noteq> dquote) s)"
    by (auto simp: quoted_def Let_def split: if_splits)
  from d have "hd (dropWhile (\<lambda>c. c \<noteq> dquote) s) = dquote"
    using hd_dropWhile[of "\<lambda>c. c \<noteq> dquote" s] by auto
  with d r have "dropWhile (\<lambda>c. c \<noteq> dquote) s = dquote # r"
    by (cases "dropWhile (\<lambda>c. c \<noteq> dquote) s") auto
  then have "s = v @ dquote # r"
    using takeWhile_dropWhile_id[of "\<lambda>c. c \<noteq> dquote" s] v by simp
  moreover have "dquote \<notin> set v"
    using v by (auto dest: set_takeWhileD)
  ultimately show "v \<noteq> [] \<and> dquote \<notin> set v \<and> s = v @ dquote # r"
    using \<open>v \<noteq> []\<close> by simp
next
  assume a: "v \<noteq> [] \<and> dquote \<notin> set v \<and> s = v @ dquote # r"
  then have nq: "\<And>x. x \<in> set v \<Longrightarrow> x \<noteq> dquote"
    by auto
  from a have "takeWhile (\<lambda>c. c \<noteq> dquote) s = v" "dropWhile (\<lambda>c. c \<noteq> dquote) s = dquote # r"
    using takeWhile_append2[of v "\<lambda>c. c \<noteq> dquote" "dquote # r", OF nq]
      dropWhile_append2[of v "\<lambda>c. c \<noteq> dquote" "dquote # r", OF nq] by simp_all
  with a show "quoted s = Some (v, r)"
    by (simp add: quoted_def)
qed

lemma tailAt_Some: "tailAt s = Some (b, r) \<Longrightarrow> s = ''>'' @ b @ toolClose @ r"
  by (auto simp: tailAt_def stripPrefix_Some_iff dest: lazyUntil_Some split: option.splits)

lemma stripPrefix_le: "stripPrefix p s = Some r \<Longrightarrow> length r \<le> length s"
  by (simp add: stripPrefix_Some_iff)

lemma quoted_le: "quoted s = Some (v, r) \<Longrightarrow> length r \<le> length s"
  by (simp add: quoted_Some_iff)

lemma tailAt_shorter: "tailAt s = Some (b, r) \<Longrightarrow> length r < length s"
  by (drule tailAt_Some) simp

lemma matchAt_shorter:
  assumes "matchAt s = Some (m, rest)"
  shows "length rest < length s"
proof -
  from assms obtain r0 c r1 where r0: "stripPrefix toolOpen s = Some r0" and q: "quoted r0 = Some (c, r1)"
    by (auto simp: matchAt_def split: option.splits)
  have l1: "length r1 \<le> length s"
    using stripPrefix_le[OF r0] quoted_le[OF q] by simp
  from assms r0 q consider b where "tailAt r1 = Some (b, rest)"
    | r2 p r3 b where "stripPrefix pathOpen r1 = Some r2" "quoted r2 = Some (p, r3)" "tailAt r3 = Some (b, rest)"
    by (auto simp: matchAt_def Let_def split: option.splits)
  then show ?thesis
  proof cases
    case 1
    then show ?thesis using tailAt_shorter l1 by fastforce
  next
    case 2
    then show ?thesis
      using l1 stripPrefix_le[OF 2(1)] quoted_le[OF 2(2)] tailAt_shorter[OF 2(3)] by simp
  qed
qed

lemma regexExec_shorter: "regexExec s = Some (pre, m, rest) \<Longrightarrow> length rest < length s"
  by (induction s arbitrary: pre) (auto dest: matchAt_shorter split: option.splits)

subsection \<open>The global expression: every match, and \<open>answer.replace(toolRegex, '')\<close>\<close>

text \<open>
  \<open>execAll\<close>: the matches that the repeated \<open>toolRegex.exec(answer)\<close> returns, from
  \<open>lastIndex = 0\<close> until it returns \<open>null\<close>. \<open>replaceAll\<close>: the text that
  \<open>answer.replace(toolRegex, '')\<close> leaves, every match removed in one pass from left to
  right. A match is never empty, so both recursions end.
\<close>

function execAll :: "string \<Rightarrow> tmatch list" where
  "execAll s =
     (case regexExec s of
        None \<Rightarrow> []
      | Some (pre, m, rest) \<Rightarrow> m # execAll rest)"
  by pat_completeness auto
termination
  by (relation "measure length") (auto dest: regexExec_shorter)

function replaceAll :: "string \<Rightarrow> string" where
  "replaceAll s =
     (case regexExec s of
        None \<Rightarrow> s
      | Some (pre, m, rest) \<Rightarrow> pre @ replaceAll rest)"
  by pat_completeness auto
termination
  by (relation "measure length") (auto dest: regexExec_shorter)

declare execAll.simps [simp del] replaceAll.simps [simp del]

text \<open>
  The text of a directive block, \<open><tool code="c" path="p">b</tool>\<close> or, without a path,
  \<open><tool code="c">b</tool>\<close>. It is well formed when the attribute values are not empty
  and hold no double quote, and the body holds no end marker (blocks do not nest, and the
  body ends at the first end marker).
\<close>

definition block :: "string \<Rightarrow> string option \<Rightarrow> string \<Rightarrow> string" where
  "block c p b =
     toolOpen @ c @ [dquote] @ (case p of None \<Rightarrow> [] | Some q \<Rightarrow> pathOpen @ q @ [dquote])
       @ ''>'' @ b @ toolClose"

definition attrOk :: "string \<Rightarrow> bool" where
  "attrOk v = (v \<noteq> [] \<and> dquote \<notin> set v)"

definition wellFormed :: "string \<times> string option \<times> string \<Rightarrow> bool" where
  "wellFormed d =
     (case d of (c, p, b) \<Rightarrow>
        attrOk c \<and> (case p of None \<Rightarrow> True | Some q \<Rightarrow> attrOk q) \<and> \<not> sublist toolClose b)"


lemma prefix_straddle:
  assumes "prefix (x # l) (g @ r)" "g \<noteq> []" "x \<notin> set l" "r = [] \<or> hd r = x"
  shows "prefix (x # l) g"
proof (rule ccontr)
  assume np: "\<not> prefix (x # l) g"
  from assms(1) obtain z where "g @ r = (x # l) @ z"
    by (auto simp: prefix_def)
  then obtain u where u: "g @ u = x # l" "r = u @ z"
    using np append_eq_append_conv2[of g r "x # l" z] by (auto simp: prefix_def)
  from np u(1) have "u \<noteq> []" by auto
  from assms(2) u(1) obtain g' where "g = x # g'" "l = g' @ u"
    by (cases g) auto
  with u \<open>u \<noteq> []\<close> have "hd r \<in> set l" "r \<noteq> []"
    by (cases u; simp)+
  with assms(3,4) show False by auto
qed

lemma regexExec_gap:
  assumes "\<not> sublist toolOpen g" "r = [] \<or> hd r = CHR ''<''"
  shows "regexExec (g @ r) =
           (case regexExec r of None \<Rightarrow> None | Some (pre, m, rest) \<Rightarrow> Some (g @ pre, m, rest))"
  using assms(1)
proof (induction g)
  case Nil
  show ?case by (simp split: option.splits)
next
  case (Cons c g)
  have np: "\<not> prefix toolOpen (c # g)"
    using Cons.prems by (auto simp: sublist_Cons_right)
  have "\<not> prefix toolOpen ((c # g) @ r)"
    using prefix_straddle[of "CHR ''<''" "tl toolOpen" "c # g" r] np assms(2)
    by (auto simp: toolOpen_def)
  then have "matchAt (c # g @ r) = None"
    by (simp add: matchAt_def stripPrefix_None_iff[THEN iffD2])
  moreover have "\<not> sublist toolOpen g"
    using Cons.prems by (auto simp: sublist_Cons_right)
  ultimately show ?case
    using Cons.IH by (simp split: option.splits)
qed

lemma lazyUntil_first:
  assumes "\<not> sublist (x # l) b" "x \<notin> set l"
  shows "lazyUntil (x # l) (b @ (x # l) @ r) = Some (b, r)"
  using assms(1)
proof (induction b)
  case Nil
  have "stripPrefix (x # l) ((x # l) @ r) = Some r"
    by (rule stripPrefix_append)
  then show ?case by simp
next
  case (Cons c b)
  have "\<not> prefix (x # l) (c # b)" "\<not> sublist (x # l) b"
    using Cons.prems by (auto simp: sublist_Cons_right)
  then have "\<not> prefix (x # l) ((c # b) @ ((x # l) @ r))"
    using prefix_straddle[of x l "c # b" "(x # l) @ r"] assms(2) by auto
  then have "stripPrefix (x # l) (c # b @ (x # l) @ r) = None"
    by (simp add: stripPrefix_None_iff)
  with Cons.IH \<open>\<not> sublist (x # l) b\<close> show ?case
    by simp
qed

lemma tailAt_body:
  assumes "\<not> sublist toolClose b"
  shows "tailAt (''>'' @ b @ toolClose @ r) = Some (b, r)"
  using lazyUntil_first[of "CHR ''<''" "tl toolClose" b r] assms
  by (simp add: tailAt_def toolClose_def)

lemma quoted_attr:
  "attrOk v \<Longrightarrow> quoted (v @ [dquote] @ r) = Some (v, r)"
  by (simp add: quoted_Some_iff attrOk_def)

lemma matchAt_block:
  assumes "wellFormed (c, p, b)"
  shows "matchAt (block c p b @ r) =
           Some (\<lparr>fullTool = block c p b, code = c, path = p, content = b\<rparr>, r)"
proof -
  define R3 where "R3 = ''>'' @ b @ toolClose @ r"
  define R1 where "R1 = (case p of None \<Rightarrow> [] | Some q \<Rightarrow> pathOpen @ q @ [dquote]) @ R3"
  define R0 where "R0 = c @ [dquote] @ R1"
  have len: "length (block c p b @ r) - length r = length (block c p b)"
    by simp
  have s0: "stripPrefix toolOpen (block c p b @ r) = Some R0"
    by (simp add: stripPrefix_Some_iff block_def R0_def R1_def R3_def)
  have s1: "quoted R0 = Some (c, R1)"
    unfolding R0_def using assms by (intro quoted_attr) (simp add: wellFormed_def)
  have s3: "tailAt R3 = Some (b, r)"
    unfolding R3_def using assms by (intro tailAt_body) (simp add: wellFormed_def)
  show ?thesis
  proof (cases p)
    case None
    then have "R1 = R3" by (simp add: R1_def)
    moreover have "stripPrefix pathOpen R3 = None"
      by (simp add: R3_def pathOpen_def)
    ultimately show ?thesis
      using None by (simp add: matchAt_def s0[unfolded None] s1 s3 len[unfolded None])
  next
    case (Some q)
    then have "stripPrefix pathOpen R1 = Some (q @ [dquote] @ R3)"
      by (simp add: R1_def stripPrefix_Some_iff)
    moreover have "quoted (q @ [dquote] @ R3) = Some (q, R3)"
      using assms Some by (intro quoted_attr) (simp add: wellFormed_def)
    ultimately show ?thesis
      using Some by (simp add: matchAt_def s0[unfolded Some] s1 s3 len[unfolded Some] del: append.simps)
  qed
qed

text \<open>The message of the \<open>receiveMessage\<close> event: \<open>answer.replace(toolRegex, '').trim()\<close>.\<close>

definition narrative :: "string \<Rightarrow> string" where
  "narrative answer = trim (replaceAll answer)"

text \<open>
  A directive as the specification has it: kind, optional path, body. \<open>matchOf\<close> is the
  match array expected for its block; \<open>reply segs fin\<close> is the reply made of the blocks of
  \<open>segs\<close>, each after its own stretch of surrounding text, and the closing text \<open>fin\<close>;
  \<open>between segs fin\<close> is the surrounding text alone, joined in order.
\<close>

type_synonym directive = "string \<times> string option \<times> string"

definition matchOf :: "directive \<Rightarrow> tmatch" where
  "matchOf d = (case d of (c, p, b) \<Rightarrow> \<lparr>fullTool = block c p b, code = c, path = p, content = b\<rparr>)"

fun reply :: "(string \<times> directive) list \<Rightarrow> string \<Rightarrow> string" where
  "reply [] fin = fin"
| "reply ((g, c, p, b) # segs) fin = g @ block c p b @ reply segs fin"

definition between :: "(string \<times> directive) list \<Rightarrow> string \<Rightarrow> string" where
  "between segs fin = concat (map fst segs) @ fin"

lemma regexExec_matchAt: "matchAt s = Some (m, rest) \<Longrightarrow> regexExec s = Some ([], m, rest)"
  by (cases s) (auto dest: matchAt_shorter)

lemma regexExec_none: "\<not> sublist toolOpen g \<Longrightarrow> regexExec g = None"
  using regexExec_gap[of g "[]"] by simp

lemma hd_block: "hd (block c p b @ r) = CHR ''<''"
  by (simp add: block_def toolOpen_def)

lemma regexExec_reply_Cons:
  assumes "\<not> sublist toolOpen g" "wellFormed (c, p, b)"
  shows "regexExec (g @ block c p b @ r) = Some (g, matchOf (c, p, b), r)"
  using regexExec_gap[OF assms(1), of "block c p b @ r"] hd_block[of c p b r]
    regexExec_matchAt[OF matchAt_block[OF assms(2), of r]]
  by (simp add: matchOf_def)

lemma scan_reply:
  assumes "\<forall>(g, d) \<in> set segs. \<not> sublist toolOpen g \<and> wellFormed d" "\<not> sublist toolOpen fin"
  shows "execAll (reply segs fin) = map (matchOf \<circ> snd) segs \<and> replaceAll (reply segs fin) = between segs fin"
  using assms(1)
proof (induction segs)
  case Nil
  show ?case
    using regexExec_none[OF assms(2)] by (simp add: execAll.simps replaceAll.simps between_def)
next
  case (Cons sd segs)
  obtain g c p b where sd: "sd = (g, c, p, b)" by (cases sd) auto
  from Cons.prems sd have "\<not> sublist toolOpen g" "wellFormed (c, p, b)"
    by auto
  from regexExec_reply_Cons[OF this, of "reply segs fin"] Cons show ?case
    by (simp add: sd execAll.simps[of "g @ _"] replaceAll.simps[of "g @ _"] between_def)
qed

lemma sublist_trim: "sublist (trim s) s"
proof -
  have "suffix (dropWhile is_space (rev (dropWhile is_space s))) (rev (dropWhile is_space s))"
    by (rule suffix_dropWhile)
  then have "prefix (trim s) (dropWhile is_space s)"
    by (simp add: suffix_to_prefix trim_def)
  moreover have "suffix (dropWhile is_space s) s"
    by (rule suffix_dropWhile)
  ultimately show ?thesis
    by (auto simp: sublist_altdef')
qed

lemma prefix_toolOpen_block: "prefix toolOpen (block c p b)"
  by (simp add: block_def)

section \<open>Claims about the tool directive parser\<close>

text \<open>
  Claim C1, as amended. A reply that consists of \<open>N\<close> well-formed directive blocks
  (attribute values non-empty and free of double quotes, bodies free of the end marker),
  separated and surrounded by text that contains no start marker \<open><tool code="\<close>, is
  parsed into exactly those \<open>N\<close> directives, in document order, each with its own code,
  path and body. The narrative sent to the view is the surrounding text, joined in order
  and trimmed: every matched block is removed once. When the joined surrounding text
  spells no start marker either, no matched block occurs in the narrative.
\<close>

theorem C1_parser_extracts_blocks:
  assumes "\<forall>(g, d) \<in> set segs. \<not> sublist toolOpen g \<and> wellFormed d"
    and "\<not> sublist toolOpen fin"
  shows "execAll (reply segs fin) = map (matchOf \<circ> snd) segs
       \<and> length (execAll (reply segs fin)) = length segs
       \<and> narrative (reply segs fin) = trim (between segs fin)
       \<and> (\<not> sublist toolOpen (between segs fin) \<longrightarrow>
            (\<forall>m \<in> set (execAll (reply segs fin)).
               \<not> sublist (fullTool m) (narrative (reply segs fin))))"
proof -
  have sc: "execAll (reply segs fin) = map (matchOf \<circ> snd) segs"
    and rp: "replaceAll (reply segs fin) = between segs fin"
    using scan_reply[OF assms] by simp_all
  have nar: "narrative (reply segs fin) = trim (between segs fin)"
    by (simp add: narrative_def rp)
  have "\<not> sublist (fullTool m) (narrative (reply segs fin))"
    if clean: "\<not> sublist toolOpen (between segs fin)" and m: "m \<in> set (execAll (reply segs fin))" for m
  proof
    assume sub: "sublist (fullTool m) (narrative (reply segs fin))"
    from m sc obtain c p b where "fullTool m = block c p b"
      by (auto simp: matchOf_def)
    then have st: "sublist toolOpen (fullTool m)"
      using prefix_toolOpen_block[of c p b] by auto
    from st sub[unfolded nar] have "sublist toolOpen (trim (between segs fin))"
      by (rule sublist_order.order_trans)
    then have "sublist toolOpen (between segs fin)"
      using sublist_trim[of "between segs fin"] by (rule sublist_order.order_trans)
    with clean show False ..
  qed
  with sc nar show ?thesis by simp
qed

theorem C1_parser_extracts_blocks_witness:
  "\<not> sublist toolOpen ''First. '' \<and> wellFormed (''read_file'', Some ''a.ts'', '''')
   \<and> \<not> sublist toolOpen '' Then '' \<and> wellFormed (''run_command'', None, ''ls'')
   \<and> \<not> sublist toolOpen '' done.''
   \<and> \<not> sublist toolOpen (between [(''First. '', ''read_file'', Some ''a.ts'', ''''),
                              ('' Then '', ''run_command'', None, ''ls'')] '' done.'')
   \<and> length (execAll (reply [(''First. '', ''read_file'', Some ''a.ts'', ''''),
                              ('' Then '', ''run_command'', None, ''ls'')] '' done.'')) = 2
   \<and> map code (execAll (reply [(''First. '', ''read_file'', Some ''a.ts'', ''''),
                              ('' Then '', ''run_command'', None, ''ls'')] '' done.''))
       = [''read_file'', ''run_command'']
   \<and> narrative (reply [(''First. '', ''read_file'', Some ''a.ts'', ''''),
                       ('' Then '', ''run_command'', None, ''ls'')] '' done.'') = ''First.  Then  done.''
   \<and> \<not> sublist (block ''read_file'' (Some ''a.ts'') '''')
         (narrative (reply [(''First. '', ''read_file'', Some ''a.ts'', ''''),
                       ('' Then '', ''run_command'', None, ''ls'')] '' done.''))
   \<and> \<not> sublist (block ''run_command'' None ''ls'')
         (narrative (reply [(''First. '', ''read_file'', Some ''a.ts'', ''''),
                       ('' Then '', ''run_command'', None, ''ls'')] '' done.''))"
proof -
  have g1: "\<not> sublist toolOpen ''First. ''" and d1: "wellFormed (''read_file'', Some ''a.ts'', '''')"
    and g2: "\<not> sublist toolOpen '' Then ''" and d2: "wellFormed (''run_command'', None, ''ls'')"
    by code_simp+
  have h1: "\<forall>(g, d) \<in> set [(''First. '', ''read_file'', Some ''a.ts'', ''''), ('' Then '', ''run_command'', None, ''ls'')].
       \<not> sublist toolOpen g \<and> wellFormed d"
    using g1 d1 g2 d2 by simp
  have h2: "\<not> sublist toolOpen '' done.''"
    by code_simp
  have h3: "\<not> sublist toolOpen (between [(''First. '', ''read_file'', Some ''a.ts'', ''''),
                              ('' Then '', ''run_command'', None, ''ls'')] '' done.'')"
    by code_simp
  have t: "trim (between [(''First. '', ''read_file'', Some ''a.ts'', ''''),
                       ('' Then '', ''run_command'', None, ''ls'')] '' done.'') = ''First.  Then  done.''"
    by code_simp
  note r = C1_parser_extracts_blocks[OF h1 h2]
  from r have e: "execAll (reply [(''First. '', ''read_file'', Some ''a.ts'', ''''),
                              ('' Then '', ''run_command'', None, ''ls'')] '' done.'')
      = map (matchOf \<circ> snd) [(''First. '', ''read_file'', Some ''a.ts'', ''''),
                              ('' Then '', ''run_command'', None, ''ls'')]"
    by (rule conjunct1)
  from r have l: "length (execAll (reply [(''First. '', ''read_file'', Some ''a.ts'', ''''),
                              ('' Then '', ''run_command'', None, ''ls'')] '' done.'')) = 2"
    by simp
  from e have c: "map code (execAll (reply [(''First. '', ''read_file'', Some ''a.ts'', ''''),
                              ('' Then '', ''run_command'', None, ''ls'')] '' done.''))
       = [''read_file'', ''run_command'']"
    by (simp only: e) (simp add: matchOf_def)
  from r t have n: "narrative (reply [(''First. '', ''read_file'', Some ''a.ts'', ''''),
                       ('' Then '', ''run_command'', None, ''ls'')] '' done.'') = ''First.  Then  done.''"
    by (simp only: t)
  from r h3 have m: "\<forall>m \<in> set (execAll (reply [(''First. '', ''read_file'', Some ''a.ts'', ''''),
                              ('' Then '', ''run_command'', None, ''ls'')] '' done.'')).
         \<not> sublist (fullTool m) (narrative (reply [(''First. '', ''read_file'', Some ''a.ts'', ''''),
                       ('' Then '', ''run_command'', None, ''ls'')] '' done.''))"
    by blast
  have m1: "\<not> sublist (block ''read_file'' (Some ''a.ts'') '''')
         (narrative (reply [(''First. '', ''read_file'', Some ''a.ts'', ''''),
                       ('' Then '', ''run_command'', None, ''ls'')] '' done.''))"
    and m2: "\<not> sublist (block ''run_command'' None ''ls'')
         (narrative (reply [(''First. '', ''read_file'', Some ''a.ts'', ''''),
                       ('' Then '', ''run_command'', None, ''ls'')] '' done.''))"
    using m unfolding e by (simp_all add: matchOf_def)
  show ?thesis
    by (intro conjI g1 d1 g2 d2 h2 h3 l c n m1 m2)
qed

text \<open>
  Claim C1, as stated, fails in its last part. The reply
  \<open><to<tool code="a">x</tool>ol code="a">x</to<tool code="a">x</tool>ol>\<close> holds two
  well-formed blocks; the three stretches of text around them, \<open><to\<close>,
  \<open>ol code="a">x</to\<close> and \<open>ol>\<close>, hold neither a start marker nor an end marker. Both
  blocks are extracted, and the text left over, joined, is \<open><tool code="a">x</tool>\<close>:
  the narrative is the matched directive.
\<close>

theorem C1_narrative_counterexample:
  \<open>\<not> sublist toolOpen ''<to'' \<and> \<not> sublist toolClose ''<to''
   \<and> \<not> sublist toolOpen ''ol code="a">x</to'' \<and> \<not> sublist toolClose ''ol code="a">x</to''
   \<and> \<not> sublist toolOpen ''ol>'' \<and> \<not> sublist toolClose ''ol>''
   \<and> wellFormed (''a'', None, ''x'')
   \<and> reply [(''<to'', ''a'', None, ''x''), (''ol code="a">x</to'', ''a'', None, ''x'')] ''ol>''
       = ''<to<tool code="a">x</tool>ol code="a">x</to<tool code="a">x</tool>ol>''
   \<and> execAll (reply [(''<to'', ''a'', None, ''x''), (''ol code="a">x</to'', ''a'', None, ''x'')] ''ol>'')
       = [matchOf (''a'', None, ''x''), matchOf (''a'', None, ''x'')]
   \<and> fullTool (matchOf (''a'', None, ''x'')) = ''<tool code="a">x</tool>''
   \<and> narrative (reply [(''<to'', ''a'', None, ''x''), (''ol code="a">x</to'', ''a'', None, ''x'')] ''ol>'')
       = ''<tool code="a">x</tool>''
   \<and> sublist (fullTool (matchOf (''a'', None, ''x'')))
       (narrative (reply [(''<to'', ''a'', None, ''x''), (''ol code="a">x</to'', ''a'', None, ''x'')] ''ol>''))\<close>
  by code_simp

section \<open>The workspace: files, clock, processes\<close>

text \<open>
  The parts of the host that the provider calls (\<open>vscode.workspace.fs\<close>, \<open>Date\<close>,
  \<open>child_process.exec\<close>, \<open>fetch\<close>, \<open>localeCompare\<close>) are not code of the extension. The
  files of the first workspace folder are an association list from relative path to
  content (the first entry of a path counts); \<open>Uri.joinPath(rootUri, p)\<close> is the key \<open>p\<close>,
  so paths are taken as written, with \<open>/\<close> between segments. Directories are implicit:
  a path names a file or nothing, and \<open>stat\<close>, \<open>readFile\<close> and \<open>copy\<close> fail on a path
  that names no file.
  Every call of the host is appended to \<open>ioLog\<close>, which makes "no I/O" a statement about
  the state. What the host decides on its own is a field of \<open>env\<close>.
\<close>

type_synonym files = "(string \<times> string) list"

datatype fsCall =
    Stat string
  | ReadFile string
  | WriteFile string
  | Copy string string
  | ReadDirectory
  | FindFiles
  | Exec string

datatype error =
    NoWorkspace
  | TypeError
  | AccessDenied string
  | NotFound string
  | IOError string
  | SearchNotFound string
  | NoBackupFound string
  | MalformedDirective
  | ExecError
  | ModelError nat
  | FetchFailed

datatype errCode = ExitStatus nat | ErrName string | NoCode

record execResult =
  err :: "errCode option"
  stdout :: string
  stderr :: string

datatype response = HttpOk string | HttpStatus nat | Rejected

record world =
  workspaceFolders :: "string list option"
  files :: files
  clockReads :: nat
  ioLog :: "fsCall list"

record env =
  ioFault :: "string \<Rightarrow> bool"
  isoTime :: "nat \<Rightarrow> string"
  localeCompare :: "string \<Rightarrow> string \<Rightarrow> int"
  shell :: "string \<Rightarrow> files \<Rightarrow> execResult \<times> files"
  llm :: "string \<Rightarrow> response"
  systemPrompt :: string
  hostText :: "error \<Rightarrow> string"

text \<open>
  \<open>ioFault p\<close>: the host refuses to create or overwrite \<open>p\<close> (it names a directory, a
  parent is a file, no permission, no space). \<open>isoTime n\<close>: what the \<open>n\<close>-th
  \<open>new Date().toISOString()\<close> of the run returns. \<open>shell\<close>: the effect of
  \<open>cp.exec(command, {cwd, maxBuffer}, callback)\<close>, the arguments its callback receives
  and the files afterwards; a process that could not be spawned is a callback with
  \<open>err.code\<close> a name such as \<open>ENOENT\<close>. \<open>llm\<close>: the worker behind \<open>fetch\<close>.
  \<open>hostText\<close>: the message text of an error raised by the host itself.
\<close>

definition logCall :: "fsCall \<Rightarrow> world \<Rightarrow> world" where
  "logCall c w = w\<lparr>ioLog := ioLog w @ [c]\<rparr>"

text \<open>\<open>vscode.workspace.fs.stat\<close>: whether it returns (\<open>True\<close>) or throws.\<close>

definition fs_stat :: "world \<Rightarrow> string \<Rightarrow> bool \<times> world" where
  "fs_stat w p = (map_of (files w) p \<noteq> None, logCall (Stat p) w)"

definition fs_readFile :: "world \<Rightarrow> string \<Rightarrow> (error + string) \<times> world" where
  "fs_readFile w p =
     (case map_of (files w) p of None \<Rightarrow> Inl (NotFound p) | Some c \<Rightarrow> Inr c,
      logCall (ReadFile p) w)"

definition fs_writeFile :: "env \<Rightarrow> world \<Rightarrow> string \<Rightarrow> string \<Rightarrow> (error + unit) \<times> world" where
  "fs_writeFile e w p c =
     (if ioFault e p then (Inl (IOError p), logCall (WriteFile p) w)
      else (Inr (), logCall (WriteFile p) (w\<lparr>files := AList.update p c (files w)\<rparr>)))"

text \<open>\<open>vscode.workspace.fs.copy(source, target, {overwrite: true})\<close>.\<close>

definition fs_copy :: "env \<Rightarrow> world \<Rightarrow> string \<Rightarrow> string \<Rightarrow> (error + unit) \<times> world" where
  "fs_copy e w src dst =
     (case map_of (files w) src of
        None \<Rightarrow> (Inl (NotFound src), logCall (Copy src dst) w)
      | Some c \<Rightarrow>
          if ioFault e dst then (Inl (IOError dst), logCall (Copy src dst) w)
          else (Inr (), logCall (Copy src dst) (w\<lparr>files := AList.update dst c (files w)\<rparr>)))"

text \<open>\<open>vscode.workspace.fs.readDirectory(rootUri)\<close>: the names of the entries directly in
  the root folder, that is the first segment of every stored path.\<close>

definition fs_readDirectory :: "world \<Rightarrow> string list \<times> world" where
  "fs_readDirectory w =
     (remdups (map (\<lambda>(p, c). takeWhile (\<lambda>x. x \<noteq> CHR ''/'') p) (files w)), logCall ReadDirectory w)"

definition rootOf :: "world \<Rightarrow> error + string" where
  "rootOf w =
     (case workspaceFolders w of
        None \<Rightarrow> Inl NoWorkspace
      | Some [] \<Rightarrow> Inl TypeError
      | Some (r # rs) \<Rightarrow> Inr r)"

section \<open>The tool operations of \<open>ChatViewProvider\<close>\<close>

definition ignorePatterns :: "string list" where
  "ignorePatterns =
     [''node_modules'', ''vendor'', ''.git'', ''dist'', ''build'', ''out'',
      ''target'', ''bin'', ''obj'', ''lib'', ''.idea'', ''.vscode'', ''.env'']"

text \<open>\<open>relativePath.replace(/\\/g, '/')\<close>.\<close>

definition normalizedPath :: "string \<Rightarrow> string" where
  "normalizedPath relativePath = map (\<lambda>c. if c = CHR 0x5C then CHR ''/'' else c) relativePath"

definition isIgnored :: "string \<Rightarrow> bool" where
  "isIgnored relativePath =
     list_ex (\<lambda>pattern. sublist (''/'' @ pattern @ ''/'') (normalizedPath relativePath)
                       \<or> prefix (pattern @ ''/'') (normalizedPath relativePath))
       ignorePatterns"

text \<open>\<open>new Date().toISOString().replace(/[:.]/g, '-')\<close>, on the text the clock returned.\<close>

definition timestamp :: "string \<Rightarrow> string" where
  "timestamp isoText = map (\<lambda>c. if c = CHR '':'' \<or> c = CHR ''.'' then CHR ''-'' else c) isoText"

definition backupPath :: "string \<Rightarrow> string \<Rightarrow> string" where
  "backupPath relativePath ts = relativePath @ ''.bak.'' @ ts"

text \<open>\<open>_createBackup\<close>: everything thrown inside is swallowed.\<close>

definition createBackup :: "env \<Rightarrow> world \<Rightarrow> string \<Rightarrow> world" where
  "createBackup e w relativePath =
     (case fs_stat w relativePath of
        (False, w1) \<Rightarrow> w1
      | (True, w1) \<Rightarrow>
          (let ts = timestamp (isoTime e (clockReads w1));
               w2 = w1\<lparr>clockReads := Suc (clockReads w1)\<rparr>
           in snd (fs_copy e w2 relativePath (backupPath relativePath ts))))"

definition writeFile :: "env \<Rightarrow> world \<Rightarrow> string \<Rightarrow> string \<Rightarrow> (error + string) \<times> world" where
  "writeFile e w relativePath contents =
     (case rootOf w of
        Inl x \<Rightarrow> (Inl x, w)
      | Inr root \<Rightarrow>
          if isIgnored relativePath then (Inl (AccessDenied relativePath), w)
          else
            (let w1 = createBackup e w relativePath
             in case fs_writeFile e w1 relativePath contents of
                  (Inl x, w2) \<Rightarrow> (Inl x, w2)
                | (Inr u, w2) \<Rightarrow> (Inr (''Written to '' @ relativePath), w2)))"

definition readFile :: "world \<Rightarrow> string \<Rightarrow> (error + string) \<times> world" where
  "readFile w relativePath =
     (case workspaceFolders w of
        None \<Rightarrow> (Inl NoWorkspace, w)
      | Some fs \<Rightarrow>
          if isIgnored relativePath then (Inl (AccessDenied relativePath), w)
          else (case fs of
                  [] \<Rightarrow> (Inl TypeError, w)
                | r # rs \<Rightarrow> fs_readFile w relativePath))"

text \<open>After a successful write \<open>_writeFile\<close> asks the editor to show the document, inside
  its own \<open>try\<close>/\<open>catch\<close>: no effect on the state modelled here.\<close>

subsection \<open>\<open>_replaceLines\<close>\<close>

text \<open>
  \<open>content.match(/<search>([\s\S]*?)<\/search>/)\<close>, not global: the leftmost position at
  which the expression matches, and there the shortest inner text.
\<close>

definition regionAt :: "string \<Rightarrow> string \<Rightarrow> string \<Rightarrow> string option" where
  "regionAt opening closing s =
     (case stripPrefix opening s of
        None \<Rightarrow> None
      | Some r \<Rightarrow> (case lazyUntil closing r of None \<Rightarrow> None | Some (v, rest) \<Rightarrow> Some v))"

fun firstMatch :: "(string \<Rightarrow> 'a option) \<Rightarrow> string \<Rightarrow> 'a option" where
  "firstMatch f [] = f []"
| "firstMatch f (c # cs) = (case f (c # cs) of Some v \<Rightarrow> Some v | None \<Rightarrow> firstMatch f cs)"

definition searchMatch :: "string \<Rightarrow> string option" where
  "searchMatch contents = firstMatch (regionAt ''<search>'' ''</search>'') contents"

definition replaceMatch :: "string \<Rightarrow> string option" where
  "replaceMatch contents = firstMatch (regionAt ''<replace>'' ''</replace>'') contents"

text \<open>
  \<open>original.replace(search, replace)\<close> with a string pattern: the first occurrence of
  \<open>search\<close> is replaced by the expansion of \<open>replace\<close>, in which \<open>$$\<close> stands for \<open>$\<close>,
  \<open>$&\<close> for the matched text, \<open>$`\<close> for the text before the match and \<open>$'\<close> for the
  text after it (there are no groups, so \<open>$1\<close> and \<open>$<\<close> stay as they are).
\<close>

fun getSubstitution :: "string \<Rightarrow> string \<Rightarrow> string \<Rightarrow> string \<Rightarrow> string" where
  "getSubstitution matched preceding following [] = []"
| "getSubstitution matched preceding following [c] = [c]"
| "getSubstitution matched preceding following (c # d # cs) =
     (if c = CHR ''$'' then
        (if d = CHR ''$'' then CHR ''$'' # getSubstitution matched preceding following cs
         else if d = CHR 0x60 then preceding @ getSubstitution matched preceding following cs
         else if d = CHR ''&'' then matched @ getSubstitution matched preceding following cs
         else if d = CHR 0x27 then following @ getSubstitution matched preceding following cs
         else c # getSubstitution matched preceding following (d # cs))
      else c # getSubstitution matched preceding following (d # cs))"

definition stringReplace :: "string \<Rightarrow> string \<Rightarrow> string \<Rightarrow> string" where
  "stringReplace original search replace =
     (case lazyUntil search original of
        None \<Rightarrow> original
      | Some (preceding, following) \<Rightarrow> preceding @ getSubstitution search preceding following replace @ following)"

definition replaceLines :: "env \<Rightarrow> world \<Rightarrow> string \<Rightarrow> string \<Rightarrow> (error + string) \<times> world" where
  "replaceLines e w relativePath contents =
     (case rootOf w of
        Inl x \<Rightarrow> (Inl x, w)
      | Inr root \<Rightarrow>
         (case (searchMatch contents, replaceMatch contents) of
            (Some search, Some replace) \<Rightarrow>
              (case fs_readFile w relativePath of
                 (Inl x, w1) \<Rightarrow> (Inl x, w1)
               | (Inr original, w1) \<Rightarrow>
                   if \<not> sublist search original then (Inl (SearchNotFound relativePath), w1)
                   else
                     (let w2 = createBackup e w1 relativePath;
                          updated = stringReplace original search replace
                      in case fs_writeFile e w2 relativePath updated of
                           (Inl x, w3) \<Rightarrow> (Inl x, w3)
                         | (Inr u, w3) \<Rightarrow> (Inr (''Successfully updated '' @ relativePath), w3)))
          | _ \<Rightarrow> (Inl MalformedDirective, w)))"

subsection \<open>\<open>_restoreFile\<close>\<close>

text \<open>\<open>Array.prototype.sort\<close> with a comparator: a stable insertion sort, which is what
  every consistent comparator yields.\<close>

fun insertBy :: "('a \<Rightarrow> 'a \<Rightarrow> int) \<Rightarrow> 'a \<Rightarrow> 'a list \<Rightarrow> 'a list" where
  "insertBy cmp x [] = [x]"
| "insertBy cmp x (y # ys) = (if cmp x y \<le> 0 then x # y # ys else y # insertBy cmp x ys)"

definition sortBy :: "('a \<Rightarrow> 'a \<Rightarrow> int) \<Rightarrow> 'a list \<Rightarrow> 'a list" where
  "sortBy cmp xs = foldr (insertBy cmp) xs []"

definition restoreFile :: "env \<Rightarrow> world \<Rightarrow> string \<Rightarrow> (error + string) \<times> world" where
  \<open>restoreFile e w relativePath =
     (case rootOf w of
        Inl x \<Rightarrow> (Inl x, w)
      | Inr root \<Rightarrow>
         (case fs_readDirectory w of
            (names, w1) \<Rightarrow>
              (let baks = sortBy (\<lambda>a b. localeCompare e b a)
                            (filter (\<lambda>name. prefix (relativePath @ ''.bak.'') name) names)
               in case baks of
                    [] \<Rightarrow> (Inl (NoBackupFound relativePath), w1)
                  | latestBak # others \<Rightarrow>
                      (case fs_copy e w1 latestBak relativePath of
                         (Inl x, w2) \<Rightarrow> (Inl x, w2)
                       | (Inr u, w2) \<Rightarrow>
                           (Inr (''Restored "'' @ relativePath @ ''" from backup.''), w2)))))\<close>

subsection \<open>\<open>_runCommand\<close>, \<open>_listFiles\<close>\<close>

fun showNat :: "nat \<Rightarrow> string" where
  "showNat n =
     (if n < 10 then [char_of (48 + n)]
      else showNat (n div 10) @ [char_of (48 + n mod 10)])"

declare showNat.simps [simp del]








subsection \<open>The dispatch inside \<open>_handleMessage\<close>\<close>



section \<open>The agent loop of \<open>_handleMessage\<close>\<close>

text \<open>\<open>interface Message { role; content }\<close>; the field \<open>content\<close> is \<open>msgContent\<close> here.\<close>

record message =
  role :: string
  msgContent :: string

datatype toolStatus = Running | Success | Failed

datatype event =
    StatusEvent bool
  | ReceiveMessage string
  | ToolCall string "string option" toolStatus "string option"

record state =
  sessionHistories :: "string \<Rightarrow> message list option"
  posted :: "event list"
  wld :: world


definition postMessage :: "event \<Rightarrow> state \<Rightarrow> state" where
  "postMessage ev st = st\<lparr>posted := posted st @ [ev]\<rparr>"

definition historyOf :: "state \<Rightarrow> string \<Rightarrow> message list" where
  "historyOf st sessionId = (case sessionHistories st sessionId of None \<Rightarrow> [] | Some h \<Rightarrow> h)"

definition push :: "string \<Rightarrow> message \<Rightarrow> state \<Rightarrow> state" where
  "push sessionId msg st =
     st\<lparr>sessionHistories := (sessionHistories st)(sessionId \<mapsto> historyOf st sessionId @ [msg])\<rparr>"








section \<open>A sample environment\<close>

text \<open>Comparison by code units, the plain lexicographic order.\<close>

fun codeUnitCompare :: "string \<Rightarrow> string \<Rightarrow> int" where
  "codeUnitCompare [] [] = 0"
| "codeUnitCompare [] (y # ys) = - 1"
| "codeUnitCompare (x # xs) [] = 1"
| "codeUnitCompare (x # xs) (y # ys) =
     (if (of_char x :: nat) < of_char y then - 1
      else if (of_char y :: nat) < of_char x then 1
      else codeUnitCompare xs ys)"

text \<open>A host without faults whose clock advances by a second at every reading, whose
  processes exit cleanly without output, and whose model answers without directives.\<close>

definition sampleEnv :: env where
  "sampleEnv =
     \<lparr>ioFault = (\<lambda>p. False),
      isoTime = (\<lambda>n. ''2026-11-03T09:01:0'' @ showNat n @ ''.000Z''),
      localeCompare = codeUnitCompare,
      shell = (\<lambda>command fs. (\<lparr>err = None, stdout = [], stderr = []\<rparr>, fs)),
      llm = (\<lambda>q. HttpOk ''Done.''),
      systemPrompt = ''SYSTEM'',
      hostText = (\<lambda>x. ''host error'')\<rparr>"

definition sampleWorld :: "files \<Rightarrow> world" where
  "sampleWorld fs = \<lparr>workspaceFolders = Some [''/ws''], files = fs, clockReads = 0, ioLog = []\<rparr>"

section \<open>Claims about the ignored paths\<close>

lemma isIgnored_iff:
  "isIgnored p \<longleftrightarrow>
     (\<exists>pattern \<in> set ignorePatterns.
        sublist (''/'' @ pattern @ ''/'') (normalizedPath p) \<or> prefix (pattern @ ''/'') (normalizedPath p))"
  by (simp add: isIgnored_def list_ex_iff)

text \<open>
  Claim C6, as amended. With a workspace folder open, for every relative path whose
  normalized form (backslashes turned into \<open>/\<close>) contains \<open>/name/\<close> or starts with
  \<open>name/\<close> for an ignored directory name of the default set, that is, has the name as
  a whole segment followed by \<open>/\<close>, \<open>_readFile\<close> and \<open>_writeFile\<close> fail with
  \<open>AccessDenied\<close> and leave the state as it was: no call of the host, no file changed.
\<close>

theorem C6_ignored_segment_denied:
  assumes "pattern \<in> set ignorePatterns"
    and "sublist (''/'' @ pattern @ ''/'') (normalizedPath p) \<or> prefix (pattern @ ''/'') (normalizedPath p)"
    and "rootOf w = Inr root"
  shows "readFile w p = (Inl (AccessDenied p), w) \<and> writeFile e w p c = (Inl (AccessDenied p), w)"
proof -
  have ig: "isIgnored p"
    using assms(1,2) unfolding isIgnored_iff by blast
  from assms(3) obtain rs where "workspaceFolders w = Some (root # rs)"
    by (auto simp: rootOf_def split: option.splits list.splits)
  with ig assms(3) show ?thesis
    by (simp add: readFile_def writeFile_def)
qed

theorem C6_ignored_segment_denied_witness:
  "''node_modules'' \<in> set ignorePatterns
   \<and> prefix (''node_modules'' @ ''/'') (normalizedPath ''node_modules/x.txt'')
   \<and> rootOf (sampleWorld [(''node_modules/x.txt'', ''data'')]) = Inr ''/ws''
   \<and> readFile (sampleWorld [(''node_modules/x.txt'', ''data'')]) ''node_modules/x.txt''
       = (Inl (AccessDenied ''node_modules/x.txt''), sampleWorld [(''node_modules/x.txt'', ''data'')])
   \<and> writeFile sampleEnv (sampleWorld [(''node_modules/x.txt'', ''data'')]) ''node_modules/x.txt'' ''new''
       = (Inl (AccessDenied ''node_modules/x.txt''), sampleWorld [(''node_modules/x.txt'', ''data'')])"
proof -
  have h1: "''node_modules'' \<in> set ignorePatterns"
    by (simp add: ignorePatterns_def)
  have h2: "prefix (''node_modules'' @ ''/'') (normalizedPath ''node_modules/x.txt'')"
    by code_simp
  have h3: "rootOf (sampleWorld [(''node_modules/x.txt'', ''data'')]) = Inr ''/ws''"
    by (simp add: rootOf_def sampleWorld_def)
  show ?thesis
    using h1 h2 h3
      C6_ignored_segment_denied[OF h1 disjI2[OF h2] h3, of sampleEnv "''new''"]
    by blast
qed

text \<open>
  Claim C6, as stated, fails: \<open>binary.txt\<close> starts with (and so contains) the ignored
  name \<open>bin\<close>, yet it is read, through the host, and written.
\<close>

theorem C6_name_prefix_counterexample:
  "''bin'' \<in> set ignorePatterns
   \<and> prefix ''bin'' (normalizedPath ''binary.txt'')
   \<and> sublist ''bin'' (normalizedPath ''binary.txt'')
   \<and> rootOf (sampleWorld [(''binary.txt'', ''data'')]) = Inr ''/ws''
   \<and> fst (readFile (sampleWorld [(''binary.txt'', ''data'')]) ''binary.txt'') = Inr ''data''
   \<and> ioLog (snd (readFile (sampleWorld [(''binary.txt'', ''data'')]) ''binary.txt'')) = [ReadFile ''binary.txt'']
   \<and> fst (writeFile sampleEnv (sampleWorld [(''binary.txt'', ''data'')]) ''binary.txt'' ''new'')
        = Inr ''Written to binary.txt''
   \<and> map_of (files (snd (writeFile sampleEnv (sampleWorld [(''binary.txt'', ''data'')]) ''binary.txt'' ''new'')))
        ''binary.txt'' = Some ''new''"
  by code_simp

section \<open>Claims about \<open>_runCommand\<close>\<close>






section \<open>Claims about \<open>replace_lines\<close> bodies without a region\<close>






text \<open>Without a workspace the directive fails with \<open>NoWorkspace\<close>, whatever its body.\<close>

lemma replaceLines_no_workspace_example:
  "searchMatch ''<replace>bar</replace>'' = None
   \<and> replaceLines sampleEnv
         \<lparr>workspaceFolders = None, files = [(''a.ts'', ''foo'')], clockReads = 0, ioLog = []\<rparr>
         ''a.ts'' ''<replace>bar</replace>''
       = (Inl NoWorkspace,
          \<lparr>workspaceFolders = None, files = [(''a.ts'', ''foo'')], clockReads = 0, ioLog = []\<rparr>)
   \<and> NoWorkspace \<noteq> MalformedDirective"
  by code_simp

section \<open>Claims about the agent loop\<close>

lemma historyOf_push [simp]: "historyOf (push sessionId msg st) sessionId = historyOf st sessionId @ [msg]"
  by (simp add: historyOf_def push_def)

lemma historyOf_postMessage [simp]: "historyOf (postMessage ev st) sessionId = historyOf st sessionId"
  by (simp add: historyOf_def postMessage_def)












section \<open>Claims about backups\<close>

lemma backupPath_neq [simp]: "backupPath p ts \<noteq> p"
  by (simp add: backupPath_def)








text \<open>A write that is not carried out makes no backup either: a file exists at
  \<open>lib/a.js\<close>, an ignored path; the write is rejected and the state stays as it was.\<close>

lemma writeFile_ignored_example:
  "map_of (files (sampleWorld [(''lib/a.js'', ''old'')])) ''lib/a.js'' = Some ''old''
   \<and> writeFile sampleEnv (sampleWorld [(''lib/a.js'', ''old'')]) ''lib/a.js'' ''new''
       = (Inl (AccessDenied ''lib/a.js''), sampleWorld [(''lib/a.js'', ''old'')])"
  by code_simp

section \<open>Claims about \<open>restore_file\<close>\<close>

text \<open>Three successive writes to one path on the sample host, from an empty workspace.\<close>

definition threeWrites :: "string \<Rightarrow> world" where
  "threeWrites p =
     snd (writeFile sampleEnv
            (snd (writeFile sampleEnv
                    (snd (writeFile sampleEnv (sampleWorld []) p ''v1'')) p ''v2'')) p ''v3'')"

lemma readDirectory_no_slash:
  "name \<in> set (fst (fs_readDirectory w)) \<Longrightarrow> CHR ''/'' \<notin> set name"
  by (auto simp: fs_readDirectory_def dest: set_takeWhileD)

lemma sortBy_Nil [simp]: "sortBy cmp [] = []"
  by (simp add: sortBy_def)

text \<open>The defect in general: the names that \<open>readDirectory(rootUri)\<close> returns hold no
  \<open>/\<close>, so for a path below the root no name starts with \<open>path.bak.\<close>, whatever backups
  \<open>_createBackup\<close> has put beside the file.\<close>

lemma restoreFile_below_root:
  assumes "CHR ''/'' \<in> set p" and "rootOf w = Inr root"
  shows "restoreFile e w p = (Inl (NoBackupFound p), logCall ReadDirectory w)"
proof -
  have "\<not> prefix (p @ ''.bak.'') name" if "name \<in> set (fst (fs_readDirectory w))" for name
  proof
    assume "prefix (p @ ''.bak.'') name"
    then have "set p \<subseteq> set name"
      by (auto simp: prefix_def)
    with assms(1) readDirectory_no_slash[OF that] show False
      by auto
  qed
  then have none: "filter (\<lambda>name. prefix (p @ ''.bak.'') name) (fst (fs_readDirectory w)) = []"
    by (simp add: filter_empty_conv)
  obtain names where rd: "fs_readDirectory w = (names, logCall ReadDirectory w)"
    by (simp add: fs_readDirectory_def)
  with none have "filter (\<lambda>name. prefix (p @ ''.bak.'') name) names = []"
    by simp
  then show ?thesis
    using assms(2) by (simp add: restoreFile_def rd)
qed

text \<open>
  Claim C3 at a path below the root. After the writes \<open>v1\<close>, \<open>v2\<close>, \<open>v3\<close> to
  \<open>src/a.ts\<close> the backup taken before the last write holds \<open>v2\<close>, beside the file;
  \<open>_restoreFile\<close> lists the root folder only, reports that there is no backup, and the
  file keeps \<open>v3\<close>.
\<close>

theorem C3_restore_below_root_fails:
  "map_of (files (threeWrites ''src/a.ts'')) ''src/a.ts'' = Some ''v3''
   \<and> map_of (files (threeWrites ''src/a.ts'')) ''src/a.ts.bak.2026-11-03T09-01-00-000Z'' = Some ''v1''
   \<and> map_of (files (threeWrites ''src/a.ts'')) ''src/a.ts.bak.2026-11-03T09-01-01-000Z'' = Some ''v2''
   \<and> fst (restoreFile sampleEnv (threeWrites ''src/a.ts'') ''src/a.ts'') = Inl (NoBackupFound ''src/a.ts'')
   \<and> map_of (files (snd (restoreFile sampleEnv (threeWrites ''src/a.ts'') ''src/a.ts''))) ''src/a.ts''
        = Some ''v3''"
  by code_simp

text \<open>At a path directly in the root the same run restores \<open>v2\<close>, as the claim says.\<close>

lemma restore_in_root_example:
  "map_of (files (threeWrites ''a.ts'')) ''a.ts'' = Some ''v3''
   \<and> fst (restoreFile sampleEnv (threeWrites ''a.ts'') ''a.ts'') = Inr (''Restored '' @ [dquote] @ ''a.ts'' @ [dquote] @ '' from backup.'')
   \<and> map_of (files (snd (restoreFile sampleEnv (threeWrites ''a.ts'') ''a.ts''))) ''a.ts'' = Some ''v2''"
  by code_simp

section \<open>Claims about \<open>replace_lines\<close>\<close>

lemma getSubstitution_plain:
  "CHR ''$'' \<notin> set replace \<Longrightarrow> getSubstitution matched preceding following replace = replace"
  by (induction matched preceding following replace rule: getSubstitution.induct) auto

lemma lazyUntil_occurs: "sublist lit s \<Longrightarrow> \<exists>a b. lazyUntil lit s = Some (a, b)"
  using lazyUntil_None_iff[of lit s] by (cases "lazyUntil lit s") auto

text \<open>\<open>lazyUntil\<close> splits at the first occurrence: no occurrence starts further left.\<close>

lemma lazyUntil_leftmost:
  "lazyUntil lit s = Some (a, b) \<Longrightarrow> s = a' @ lit @ b' \<Longrightarrow> length a \<le> length a'"
proof (induction s arbitrary: a a')
  case Nil
  then show ?case by (auto split: option.splits)
next
  case (Cons c s)
  show ?case
  proof (cases "stripPrefix lit (c # s)")
    case (Some r)
    with Cons.prems(1) show ?thesis by simp
  next
    case None
    then have np: "\<not> prefix lit (c # s)"
      by (simp add: stripPrefix_None_iff)
    from None Cons.prems(1) obtain a0 where a0: "lazyUntil lit s = Some (a0, b)" "a = c # a0"
      by (auto split: option.splits)
    from np Cons.prems(2) obtain a1 where a1: "a' = c # a1" "s = a1 @ lit @ b'"
      by (cases a') auto
    from Cons.IH[OF a0(1) a1(2)] a0(2) a1(1) show ?thesis by simp
  qed
qed

text \<open>What holds of claim C4: when the replacement text holds no \<open>$\<close>, the first
  occurrence of the search text, and only it, is replaced by it; and a search text that
  does not occur is an error that leaves the files as they were.\<close>

lemma replaceLines_plain:
  assumes "rootOf w = Inr root" "searchMatch contents = Some search"
    and "replaceMatch contents = Some replace" "map_of (files w) p = Some original"
    and "lazyUntil search original = Some (a, b)" "CHR ''$'' \<notin> set replace" "\<not> ioFault e p"
  shows "fst (replaceLines e w p contents) = Inr (''Successfully updated '' @ p)
       \<and> map_of (files (snd (replaceLines e w p contents))) p = Some (a @ replace @ b)"
proof -
  have sub: "sublist search original"
    using lazyUntil_None_iff[of search original] assms(5) by auto
  have upd: "stringReplace original search replace = a @ replace @ b"
    using assms(5,6) by (simp add: stringReplace_def getSubstitution_plain)
  have rd: "fs_readFile w p = (Inr original, logCall (ReadFile p) w)"
    using assms(4) by (simp add: fs_readFile_def)
  show ?thesis
    using assms(1,2,3,7) sub
    by (simp add: replaceLines_def rd upd fs_writeFile_def Let_def logCall_def update_conv')
qed

lemma replaceLines_not_found:
  assumes "rootOf w = Inr root" "searchMatch contents = Some search"
    and "replaceMatch contents = Some replace" "map_of (files w) p = Some original"
    and "\<not> sublist search original"
  shows "replaceLines e w p contents = (Inl (SearchNotFound p), logCall (ReadFile p) w)"
  using assms by (simp add: replaceLines_def fs_readFile_def)

text \<open>
  Claim C4 at a replacement text with a dollar sign. The file \<open>a.sh\<close> holds
  \<open>echo PID\<close>; the directive asks to replace \<open>PID\<close> by \<open>$$\<close>. The file is rewritten to
  \<open>echo $\<close>: \<open>String.prototype.replace\<close> expands \<open>$$\<close>, \<open>$&\<close>, \<open>$`\<close> and \<open>$'\<close> in the
  replacement, so the text put in is not the literal text asked for.
\<close>

theorem C4_replacement_is_expanded:
  "searchMatch ''<search>PID</search><replace>$$</replace>'' = Some ''PID''
   \<and> replaceMatch ''<search>PID</search><replace>$$</replace>'' = Some ''$$''
   \<and> sublist ''PID'' ''echo PID''
   \<and> fst (replaceLines sampleEnv (sampleWorld [(''a.sh'', ''echo PID'')]) ''a.sh''
             ''<search>PID</search><replace>$$</replace>'') = Inr ''Successfully updated a.sh''
   \<and> map_of (files (snd (replaceLines sampleEnv (sampleWorld [(''a.sh'', ''echo PID'')]) ''a.sh''
             ''<search>PID</search><replace>$$</replace>''))) ''a.sh'' = Some ''echo $''
   \<and> ''echo $'' \<noteq> ''echo '' @ ''$$''"
  by code_simp

section \<open>Claims about the operations without an ignored-path check\<close>














end
